theory Spec2Isabelle
  imports Main "HOL-Library.AList" "HOL-Library.Sublist" "HOL-Library.While_Combinator"
begin

section \<open>Data model (models.py)\<close>

text \<open>
  Python objects are shared by reference: a \<open>Room\<close> is reached from the world's
  \<open>rooms\<close> dictionary, from \<open>current_room\<close> and from the \<open>connections\<close> of other
  rooms. A reference is a natural number and the field \<open>store\<close> of the world state
  gives the object a reference denotes (every Python reference denotes an object, so
  the store is total).
\<close>

type_synonym ref = nat

datatype Direction = NORTH | SOUTH | EAST | WEST

text \<open>The values of \<open>Union[str, int, bool]\<close>.\<close>

datatype pyval = PInt int | PBool bool | PStr string

datatype error = ValueError | KeyError | GenerationFailed

text \<open>
  \<open>Room.connections\<close> is a Python dict: an association list in insertion order;
  a lookup is \<open>map_of\<close>, an assignment is \<open>AList.update\<close> (in place for a key that
  exists, appended otherwise).
\<close>

record Room =
  name :: string
  description :: string
  image_prompt :: string
  image_path :: "string option"
  connections :: "(Direction \<times> ref option) list"
  canon_event :: string

definition Room_init :: "string \<Rightarrow> string \<Rightarrow> string \<Rightarrow> string \<Rightarrow> Room" where
  "Room_init n d p c =
     \<lparr>name = n, description = d, image_prompt = p, image_path = None,
      connections = [(NORTH, None), (SOUTH, None), (EAST, None), (WEST, None)],
      canon_event = c\<rparr>"

record Event =
  event :: string
  is_canon :: bool

record Action =
  action_description :: string
  changed_variables :: "(string \<times> pyval) list"

text \<open>\<open>move\<close> appends the class object \<open>Event\<close> itself to \<open>seen_events\<close>.\<close>

datatype seen_entry = Event_class

section \<open>The variable line parser (utils.py)\<close>
















section \<open>World state (game\_world.py)\<close>

record GameWorld =
  store :: "ref \<Rightarrow> Room"
  rooms :: "string \<rightharpoonup> ref"
  current_room :: "ref option"
  original_room_visit_order :: "string list"
  current_event :: "Event option"
  visited_rooms :: "string list"
  seen_events :: "seen_entry list"
  variables :: "string \<rightharpoonup> pyval"
  actions :: "Action list option"

definition GameWorld_init :: "(ref \<Rightarrow> Room) \<Rightarrow> string list \<Rightarrow> (string \<rightharpoonup> pyval) \<Rightarrow> GameWorld" where
  "GameWorld_init h order vars =
     \<lparr>store = h, rooms = Map.empty, current_room = None,
      original_room_visit_order = order, current_event = None,
      visited_rooms = [], seen_events = [], variables = vars, actions = None\<rparr>"

definition is_canon_route :: "GameWorld \<Rightarrow> bool" where
  "is_canon_route w \<longleftrightarrow>
     visited_rooms w =
       take (min (length (original_room_visit_order w)) (length (visited_rooms w)))
         (original_room_visit_order w)"

text \<open>
  The external collaborators of utils.py (\<open>generate_non_canon_event\<close> and
  \<open>generate_actions\<close> call a language model): parameters of the model. A call either
  raises (\<open>Inl\<close>) or returns (\<open>Inr\<close>).
\<close>

record generator =
  generate_non_canon_event :: "Room \<Rightarrow> seen_entry list \<Rightarrow> error + string"
  utils_generate_actions ::
    "Room option \<Rightarrow> Event option \<Rightarrow> (string \<rightharpoonup> pyval) \<Rightarrow> error + Action list"

text \<open>
  Methods mutate the world in place, so a method that raises leaves behind whatever it
  had already written: every method that can raise returns the exception (if any)
  together with the state it leaves.
\<close>

definition generate_actions :: "generator \<Rightarrow> GameWorld \<Rightarrow> error option \<times> GameWorld" where
  "generate_actions g w =
     (case utils_generate_actions g (map_option (store w) (current_room w))
             (current_event w) (variables w) of
        Inl e \<Rightarrow> (Some e, w)
      | Inr acts \<Rightarrow> (None, w\<lparr>actions := Some acts\<rparr>))"

definition add_room :: "generator \<Rightarrow> ref \<Rightarrow> GameWorld \<Rightarrow> error option \<times> GameWorld" where
  "add_room g room w =
     (let w1 = w\<lparr>rooms := (rooms w)(name (store w room) \<mapsto> room)\<rparr> in
      case current_room w1 of
        Some _ \<Rightarrow> (None, w1)
      | None \<Rightarrow>
          let w2 = w1\<lparr>visited_rooms := visited_rooms w1 @ [name (store w1 room)]\<rparr>;
              w3 = w2\<lparr>current_room := Some room\<rparr>;
              w4 = w3\<lparr>current_event :=
                     Some \<lparr>event = canon_event (store w3 room), is_canon = True\<rparr>\<rparr>
          in generate_actions g w4)"

text \<open>The dictionary \<open>opposite\<close> that \<open>connect_rooms\<close> builds and never reads.\<close>

fun opposite :: "Direction \<Rightarrow> Direction" where
  "opposite NORTH = SOUTH"
| "opposite SOUTH = NORTH"
| "opposite EAST = WEST"
| "opposite WEST = EAST"

definition connect_rooms :: "string \<Rightarrow> string \<Rightarrow> Direction \<Rightarrow> GameWorld \<Rightarrow> GameWorld" where
  "connect_rooms room1_name room2_name direction w =
     (case (rooms w room1_name, rooms w room2_name) of
        (Some room1, Some room2) \<Rightarrow>
          w\<lparr>store := (store w)(room1 := (store w room1)
               \<lparr>connections :=
                  AList.update direction (Some room2) (connections (store w room1))\<rparr>)\<rparr>
      | _ \<Rightarrow> w)"

definition get_event :: "generator \<Rightarrow> GameWorld \<Rightarrow> Room \<Rightarrow> error + (string \<times> bool)" where
  "get_event g w room =
     (if is_canon_route w then Inr (canon_event room, True)
      else case generate_non_canon_event g room (seen_events w) of
             Inl e \<Rightarrow> Inl e
           | Inr text \<Rightarrow> Inr (text, False))"

text \<open>
  The loop of \<open>update_variables\<close> over the keys of \<open>action.changed_variables\<close>; the
  store is written key by key, so the state at a raise is the partly updated one.
\<close>

fun update_variables_loop ::
  "(string \<times> pyval) list \<Rightarrow> string list \<Rightarrow> (string \<rightharpoonup> pyval) \<Rightarrow> error option \<times> (string \<rightharpoonup> pyval)" where
  "update_variables_loop cv [] vars = (None, vars)"
| "update_variables_loop cv (variable # rest) vars =
     (if vars variable \<noteq> None then
        (case map_of cv variable of
           None \<Rightarrow> (Some KeyError, vars)
         | Some v \<Rightarrow> update_variables_loop cv rest (vars(variable \<mapsto> v)))
      else update_variables_loop cv rest vars)"

definition update_variables :: "Action \<Rightarrow> GameWorld \<Rightarrow> error option \<times> GameWorld" where
  "update_variables action w =
     (case update_variables_loop (changed_variables action)
             (map fst (changed_variables action)) (variables w) of
        (r, vars) \<Rightarrow> (r, w\<lparr>variables := vars\<rparr>))"

section \<open>The entry points of the interface (game\_ui.py)\<close>

text \<open>
  \<open>GameUI.move\<close> and \<open>GameUI.perform_action\<close> act on \<open>self.game_world\<close>;
  \<open>update_display\<close>, which both call last, only reads the world and is left out. The
  key bindings and buttons pass \<open>'north'\<close>, \<open>'south'\<close>, \<open>'east'\<close>, \<open>'west'\<close>, which are
  equal to the members of the str-valued enumeration.
\<close>

definition move :: "generator \<Rightarrow> Direction \<Rightarrow> GameWorld \<Rightarrow> error option \<times> GameWorld" where
  "move g direction w =
     (case current_room w of
        None \<Rightarrow> (None, w)
      | Some cur \<Rightarrow>
          (case map_of (connections (store w cur)) direction of
             None \<Rightarrow> (Some KeyError, w)
           | Some None \<Rightarrow> (None, w)
           | Some (Some next_room) \<Rightarrow>
               let w1 = w\<lparr>current_room := Some next_room\<rparr>;
                   w2 = w1\<lparr>visited_rooms := visited_rooms w1 @ [name (store w1 next_room)]\<rparr>
               in (case get_event g w2 (store w2 next_room) of
                     Inl e \<Rightarrow> (Some e, w2)
                   | Inr (ev, canon) \<Rightarrow>
                       let w3 = w2\<lparr>current_event := Some \<lparr>event = ev, is_canon = canon\<rparr>\<rparr>;
                           w4 = w3\<lparr>seen_events := seen_events w3 @ [Event_class]\<rparr>
                       in generate_actions g w4)))"

definition perform_action :: "Action \<Rightarrow> GameWorld \<Rightarrow> error option \<times> GameWorld" where
  "perform_action action w = update_variables action w"











section \<open>Example worlds\<close>

text \<open>Concrete inputs at which the theorems below are instantiated.\<close>

definition history_world :: "string list \<Rightarrow> string list \<Rightarrow> GameWorld" where
  "history_world H R =
     (GameWorld_init (\<lambda>_. Room_init [] [] [] []) R Map.empty)\<lparr>visited_rooms := H\<rparr>"

definition ex_store :: "ref \<Rightarrow> Room" where
  "ex_store r =
     (if r = 0 then Room_init ''A'' ''hall'' ''p0'' ''arrival''
      else if r = 1 then Room_init ''B'' ''deck'' ''p1'' ''meeting''
      else if r = 2 then Room_init ''A'' ''vault'' ''p2'' ''theft''
      else Room_init ''C'' ''bay'' ''p3'' ''escape'')"

definition ex_actions :: "Action list" where
  "ex_actions =
     [\<lparr>action_description = ''rest'',
       changed_variables = [(''health'', PInt 100), (''mood'', PStr ''calm'')]\<rparr>]"

definition gen_ok :: generator where
  "gen_ok = \<lparr>generate_non_canon_event = (\<lambda>room seen. Inr ''improvised''),
            utils_generate_actions = (\<lambda>room ev vars. Inr ex_actions)\<rparr>"

definition gen_fail :: generator where
  "gen_fail = \<lparr>generate_non_canon_event = (\<lambda>room seen. Inl GenerationFailed),
              utils_generate_actions = (\<lambda>room ev vars. Inl GenerationFailed)\<rparr>"

definition ex_vars :: "string \<rightharpoonup> pyval" where
  "ex_vars = [''health'' \<mapsto> PInt 50, ''armed'' \<mapsto> PBool False]"

text \<open>Rooms A and B added in this order, then A connected to B to the north.\<close>

definition ex_world :: "string list \<Rightarrow> GameWorld" where
  "ex_world order =
     connect_rooms ''A'' ''B'' NORTH
       (snd (add_room gen_ok 1 (snd (add_room gen_ok 0 (GameWorld_init ex_store order ex_vars)))))"

definition gen_quiet :: generator where
  "gen_quiet = \<lparr>generate_non_canon_event = (\<lambda>room seen. Inr ''silence''),
               utils_generate_actions = (\<lambda>room ev vars. Inr [])\<rparr>"

section \<open>The structural invariant of the room graph\<close>

text \<open>
  The invariant of the data model, for the rooms of the graph (the values of
  \<open>rooms\<close>): the connections dictionary has four entries, keyed by the four
  directions, each entry \<open>None\<close> or a room of the graph; and the current room, if
  set, is a room of the graph.
\<close>

definition room_connections_ok :: "ref set \<Rightarrow> Room \<Rightarrow> bool" where
  "room_connections_ok members room \<longleftrightarrow>
     length (connections room) = 4 \<and>
     fst ` set (connections room) = {NORTH, SOUTH, EAST, WEST} \<and>
     (\<forall>d t. map_of (connections room) d = Some (Some t) \<longrightarrow> t \<in> members)"

definition graph_invariant :: "GameWorld \<Rightarrow> bool" where
  "graph_invariant w \<longleftrightarrow>
     (\<forall>r \<in> ran (rooms w). room_connections_ok (ran (rooms w)) (store w r)) \<and>
     (\<forall>c. current_room w = Some c \<longrightarrow> c \<in> ran (rooms w))"

section \<open>The parser's result, as the specification words it\<close>















section \<open>Properties of a layout\<close>








section \<open>Breadth-first placement order\<close>











section \<open>Canon route\<close>

lemma is_canon_route_prefix:
  "is_canon_route w \<longleftrightarrow>
     length (visited_rooms w) \<le> length (original_room_visit_order w) \<and>
     visited_rooms w = take (length (visited_rooms w)) (original_room_visit_order w)"
  unfolding is_canon_route_def
  by (metis length_take min.absorb2 min.cobounded1 min.commute)

lemmas ex_defs = ex_world_def GameWorld_init_def ex_store_def gen_ok_def gen_fail_def ex_vars_def
  add_room_def connect_rooms_def generate_actions_def Room_init_def ex_actions_def

lemma ex_world_fields:
  "current_room (ex_world order) = Some 0"
  "visited_rooms (ex_world order) = [''A'']"
  "rooms (ex_world order) = [''A'' \<mapsto> 0, ''B'' \<mapsto> 1]"
  "map_of (connections (store (ex_world order) 0)) NORTH = Some (Some 1)"
  "original_room_visit_order (ex_world order) = order"
  "variables (ex_world order) = ex_vars"
  "actions (ex_world order) = Some ex_actions"
  "seen_events (ex_world order) = []"
  "current_event (ex_world order) = Some \<lparr>event = ''arrival'', is_canon = True\<rparr>"
  by (simp_all add: ex_defs Let_def)

text \<open>
  Claim C1, as stated: the check compares the history and the reference order, both
  cut to the shorter of the two lengths. It fails on the code: with reference order
  [A, B] and history [A, B, C] the two truncations are equal, and the check is false.
\<close>

theorem is_canon_route_longer_history_counterexample:
  "take (min (length [''A'', ''B'', ''C'']) (length [''A'', ''B''])) [''A'', ''B'', ''C''] =
     take (min (length [''A'', ''B'', ''C'']) (length [''A'', ''B''])) [''A'', ''B''] \<and>
   \<not> is_canon_route (history_world [''A'', ''B'', ''C''] [''A'', ''B''])"
  by (simp add: is_canon_route_def history_world_def GameWorld_init_def)

text \<open>
  Claim C1, amended: \<open>is_canon_route\<close> is true iff the visitation history is a prefix
  of the reference order (only the reference order is truncated, so a history longer
  than the reference order is never on the canon route). With reference order [A, B]
  the histories [A] and [A, B] are on the route, [A, C] and [A, B, C] are not.
\<close>

theorem is_canon_route_iff_prefix:
  "(is_canon_route w \<longleftrightarrow> prefix (visited_rooms w) (original_room_visit_order w)) \<and>
   is_canon_route (history_world [''A''] [''A'', ''B'']) \<and>
   is_canon_route (history_world [''A'', ''B''] [''A'', ''B'']) \<and>
   \<not> is_canon_route (history_world [''A'', ''C''] [''A'', ''B'']) \<and>
   \<not> is_canon_route (history_world [''A'', ''B'', ''C''] [''A'', ''B''])"
proof -
  have "is_canon_route w \<longleftrightarrow> prefix (visited_rooms w) (original_room_visit_order w)"
    unfolding is_canon_route_prefix
    by (metis prefix_def append_eq_conv_conj length_append le_add1 take_is_prefix)
  then show ?thesis
    by (simp add: is_canon_route_def history_world_def GameWorld_init_def)
qed

section \<open>Adding rooms\<close>

text \<open>
  Claim C10: in a world whose current room is set, \<open>add_room\<close> binds the new room's
  name in \<open>rooms\<close> (replacing a binding of that name) and changes nothing else; it
  does not call the generator, so it cannot raise.
\<close>

theorem add_room_frame:
  "current_room w = Some c \<Longrightarrow>
     add_room g room w = (None, w\<lparr>rooms := (rooms w)(name (store w room) \<mapsto> room)\<rparr>)"
  by (simp add: add_room_def)

theorem add_room_frame_witness:
  "current_room (ex_world []) = Some 0 \<and>
   add_room gen_fail 3 (ex_world []) =
     (None, (ex_world [])\<lparr>rooms := (rooms (ex_world []))(''C'' \<mapsto> 3)\<rparr>)"
  using add_room_frame [of "ex_world []" 0 gen_fail 3]
  by (simp add: ex_world_fields) (simp add: ex_defs)

text \<open>
  Claim C8: in a world with no current room and an empty history (the world the
  constructor builds), \<open>add_room\<close> makes the room the current room, makes its canon
  event the current event with the canon flag set, and makes the room's name the one
  entry of the visitation history; this holds whether or not the action generator,
  called last, raises.
\<close>

theorem add_room_first:
  "current_room w = None \<Longrightarrow> visited_rooms w = [] \<Longrightarrow>
     current_room (snd (add_room g room w)) = Some room \<and>
     current_event (snd (add_room g room w)) =
       Some \<lparr>event = canon_event (store w room), is_canon = True\<rparr> \<and>
     visited_rooms (snd (add_room g room w)) = [name (store w room)] \<and>
     name (store w room) \<in> set (visited_rooms (snd (add_room g room w))) \<and>
     rooms (snd (add_room g room w)) = (rooms w)(name (store w room) \<mapsto> room)"
  by (simp add: add_room_def generate_actions_def Let_def split: sum.splits)

theorem add_room_first_witness:
  "current_room (snd (add_room gen_fail 0 (GameWorld_init ex_store [] ex_vars))) = Some 0 \<and>
   current_event (snd (add_room gen_fail 0 (GameWorld_init ex_store [] ex_vars))) =
     Some \<lparr>event = ''arrival'', is_canon = True\<rparr> \<and>
   visited_rooms (snd (add_room gen_fail 0 (GameWorld_init ex_store [] ex_vars))) = [''A'']"
  using add_room_first [of "GameWorld_init ex_store [] ex_vars" gen_fail 0]
  by (simp add: GameWorld_init_def ex_store_def Room_init_def)

section \<open>Variables and actions\<close>

lemma update_variables_loop_result:
  "set ks \<subseteq> fst ` set cv \<Longrightarrow>
     update_variables_loop cv ks vars =
       (None, \<lambda>k. if k \<in> set ks \<and> vars k \<noteq> None then map_of cv k else vars k)"
proof (induction ks arbitrary: vars)
  case Nil
  then show ?case by simp
next
  case (Cons variable rest)
  from Cons.prems obtain v where v: "map_of cv variable = Some v"
    by (metis list.set_intros(1) subsetD weak_map_of_SomeI map_of_eq_None_iff not_Some_eq)
  from Cons.prems have rest: "set rest \<subseteq> fst ` set cv" by simp
  show ?case
  proof (cases "vars variable = None")
    case True
    then have "update_variables_loop cv (variable # rest) vars =
        update_variables_loop cv rest vars" by simp
    also have "\<dots> = (None, \<lambda>k. if k \<in> set rest \<and> vars k \<noteq> None then map_of cv k else vars k)"
      by (rule Cons.IH [OF rest])
    also have "(\<lambda>k. if k \<in> set rest \<and> vars k \<noteq> None then map_of cv k else vars k) =
        (\<lambda>k. if k \<in> set (variable # rest) \<and> vars k \<noteq> None then map_of cv k else vars k)"
      using True by (intro ext) auto
    finally show ?thesis .
  next
    case False
    let ?vars = "vars(variable \<mapsto> v)"
    from False v have "update_variables_loop cv (variable # rest) vars =
        update_variables_loop cv rest ?vars" by simp
    also have "\<dots> = (None, \<lambda>k. if k \<in> set rest \<and> ?vars k \<noteq> None then map_of cv k else ?vars k)"
      by (rule Cons.IH [OF rest])
    also have "(\<lambda>k. if k \<in> set rest \<and> ?vars k \<noteq> None then map_of cv k else ?vars k) =
        (\<lambda>k. if k \<in> set (variable # rest) \<and> vars k \<noteq> None then map_of cv k else vars k)"
      using False v by (intro ext) auto
    finally show ?thesis .
  qed
qed

lemma update_variables_result:
  "update_variables a w =
     (None, w\<lparr>variables := (\<lambda>k. if k \<in> fst ` set (changed_variables a) \<and> variables w k \<noteq> None
                               then map_of (changed_variables a) k else variables w k)\<rparr>)"
  by (simp add: update_variables_def update_variables_loop_result)

text \<open>
  Claim C4: \<open>update_variables\<close> returns normally; a name that is a key of the action's
  changed-variable mapping and of the store maps to the action's value for it; a name
  that is not a key of the action keeps its value; a name absent from the store stays
  absent, so the store's key set is unchanged.
\<close>

theorem update_variables_spec:
  "fst (update_variables a w) = None \<and>
   (\<forall>k. k \<in> fst ` set (changed_variables a) \<and> k \<in> dom (variables w) \<longrightarrow>
      variables (snd (update_variables a w)) k = map_of (changed_variables a) k \<and>
      map_of (changed_variables a) k \<noteq> None) \<and>
   (\<forall>k. k \<notin> fst ` set (changed_variables a) \<longrightarrow>
      variables (snd (update_variables a w)) k = variables w k) \<and>
   (\<forall>k. k \<notin> dom (variables w) \<longrightarrow> k \<notin> dom (variables (snd (update_variables a w)))) \<and>
   dom (variables (snd (update_variables a w))) = dom (variables w)"
proof -
  have present: "map_of (changed_variables a) k \<noteq> None"
    if "k \<in> fst ` set (changed_variables a)" for k
    using that by (simp add: map_of_eq_None_iff)
  show ?thesis
    unfolding update_variables_result
    using present by (auto simp: dom_def split: if_splits)
qed

theorem update_variables_spec_witness:
  "variables (snd (update_variables (hd ex_actions) (ex_world []))) ''health'' = Some (PInt 100) \<and>
   variables (snd (update_variables (hd ex_actions) (ex_world []))) ''armed'' = Some (PBool False) \<and>
   variables (snd (update_variables (hd ex_actions) (ex_world []))) ''mood'' = None"
  using update_variables_spec [of "hd ex_actions" "ex_world []"]
  by (simp add: ex_world_fields ex_actions_def ex_vars_def dom_def)

text \<open>
  Claim C3, amended: \<open>perform_action\<close> applies the action's variable deltas (to the
  names already in the store) and does nothing else to the world: the action set is
  not regenerated and stays as it was, as do the current event and the current room.
\<close>

theorem perform_action_spec:
  "perform_action a w =
     (None, w\<lparr>variables := (\<lambda>k. if k \<in> fst ` set (changed_variables a) \<and> variables w k \<noteq> None
                               then map_of (changed_variables a) k else variables w k)\<rparr>) \<and>
   actions (snd (perform_action a w)) = actions w \<and>
   current_event (snd (perform_action a w)) = current_event w \<and>
   current_room (snd (perform_action a w)) = current_room w"
  by (simp add: perform_action_def update_variables_result)

text \<open>
  Claim C3, as stated, says that the action set is regenerated after the variables are
  updated. It fails on the code: in the example world the generator would now return
  the empty action list, and the action set after \<open>perform_action\<close> is still the old
  one (\<open>generate_actions\<close> on the updated world would have replaced it).
\<close>

theorem perform_action_no_regeneration_counterexample:
  "utils_generate_actions gen_quiet
     (map_option (store (snd (perform_action (hd ex_actions) (ex_world []))))
        (current_room (snd (perform_action (hd ex_actions) (ex_world [])))))
     (current_event (snd (perform_action (hd ex_actions) (ex_world []))))
     (variables (snd (perform_action (hd ex_actions) (ex_world [])))) = Inr [] \<and>
   actions (snd (perform_action (hd ex_actions) (ex_world []))) = Some ex_actions \<and>
   actions (snd (generate_actions gen_quiet (snd (update_variables (hd ex_actions) (ex_world []))))) = Some []"
  by (simp add: perform_action_def update_variables_result ex_world_fields gen_quiet_def generate_actions_def)

section \<open>Connections and moves\<close>

lemma opposite_neq: "opposite d \<noteq> d"
  by (cases d) simp_all

text \<open>
  Claim C5: \<open>connect_rooms\<close> returns the world unchanged when either name is not a key
  of \<open>rooms\<close>; otherwise it writes the entry of room A at the direction and nothing
  else: every other entry of every room is as before, in particular the entry of
  room B at the opposite direction.
\<close>

theorem connect_rooms_spec:
  "(rooms w a = None \<or> rooms w b = None \<longrightarrow> connect_rooms a b d w = w) \<and>
   (\<forall>ra rb. rooms w a = Some ra \<and> rooms w b = Some rb \<longrightarrow>
      connect_rooms a b d w =
        w\<lparr>store := (store w)(ra := (store w ra)
             \<lparr>connections := AList.update d (Some rb) (connections (store w ra))\<rparr>)\<rparr> \<and>
      map_of (connections (store (connect_rooms a b d w) ra)) d = Some (Some rb) \<and>
      (\<forall>r d'. r \<noteq> ra \<or> d' \<noteq> d \<longrightarrow>
         map_of (connections (store (connect_rooms a b d w) r)) d' =
           map_of (connections (store w r)) d') \<and>
      map_of (connections (store (connect_rooms a b d w) rb)) (opposite d) =
        map_of (connections (store w rb)) (opposite d))"
  by (auto simp: connect_rooms_def update_conv' opposite_neq split: option.splits)

theorem connect_rooms_spec_witness:
  "map_of (connections (store (connect_rooms ''B'' ''A'' EAST (ex_world [])) 1)) EAST = Some (Some 0) \<and>
   map_of (connections (store (connect_rooms ''B'' ''A'' EAST (ex_world [])) 0)) WEST = Some None \<and>
   connect_rooms ''B'' ''C'' EAST (ex_world []) = ex_world []"
  using connect_rooms_spec [of "ex_world []" "''B''" "''A''" EAST]
    connect_rooms_spec [of "ex_world []" "''B''" "''C''" EAST]
  by (simp add: ex_world_fields) (simp add: ex_defs)

text \<open>
  Claim C2, as stated, says that a move whose generator call raises leaves the current
  room and the history as they were. It fails on the code: in the example world, whose
  reference order is [A], moving north from A to B leaves the canon route, the event
  generator raises, and the current room is B and the history [A, B] afterwards.
\<close>

theorem move_not_atomic_counterexample:
  "fst (move gen_fail NORTH (ex_world [''A''])) = Some GenerationFailed \<and>
   current_room (ex_world [''A'']) = Some 0 \<and>
   current_room (snd (move gen_fail NORTH (ex_world [''A'']))) = Some 1 \<and>
   visited_rooms (ex_world [''A'']) = [''A''] \<and>
   visited_rooms (snd (move gen_fail NORTH (ex_world [''A'']))) = [''A'', ''B'']"
  by (simp add: move_def ex_world_fields get_event_def is_canon_route_def gen_fail_def)
     (simp add: ex_defs)

text \<open>
  Claim C2, amended: when the current room has a neighbour in the direction and the
  generator call backing the move raises, the room transition has already been made:
  the current room is the neighbour and its name is appended to the history, while the
  variable store, the action set, the rooms and their connections are as before. If
  it is the event generator that raises, nothing else has changed; if it is the
  action generator, the current event is already the new event and the seen-events
  list has one more entry.
\<close>

theorem move_generator_failure:
  assumes "current_room w = Some cur"
    and "map_of (connections (store w cur)) d = Some (Some nxt)"
    and "w2 = w\<lparr>current_room := Some nxt,
                visited_rooms := visited_rooms w @ [name (store w nxt)]\<rparr>"
  shows "(\<forall>e. get_event g w2 (store w nxt) = Inl e \<longrightarrow> move g d w = (Some e, w2)) \<and>
    (\<forall>ev c e. get_event g w2 (store w nxt) = Inr (ev, c) \<and>
        utils_generate_actions g (Some (store w nxt)) (Some \<lparr>event = ev, is_canon = c\<rparr>)
          (variables w) = Inl e \<longrightarrow>
        move g d w =
          (Some e, w2\<lparr>current_event := Some \<lparr>event = ev, is_canon = c\<rparr>,
                      seen_events := seen_events w @ [Event_class]\<rparr>)) \<and>
    (\<forall>e. fst (move g d w) = Some e \<longrightarrow>
        current_room (snd (move g d w)) = Some nxt \<and>
        visited_rooms (snd (move g d w)) = visited_rooms w @ [name (store w nxt)] \<and>
        variables (snd (move g d w)) = variables w \<and>
        actions (snd (move g d w)) = actions w \<and>
        rooms (snd (move g d w)) = rooms w \<and>
        store (snd (move g d w)) = store w)"
  using assms
  by (auto simp: move_def generate_actions_def Let_def split: sum.splits prod.splits)

theorem move_generator_failure_witness:
  "move gen_fail NORTH (ex_world [''A'']) =
     (Some GenerationFailed,
      (ex_world [''A''])\<lparr>current_room := Some 1, visited_rooms := [''A'', ''B'']\<rparr>) \<and>
   move gen_fail NORTH (ex_world [''A'', ''B'']) =
     (Some GenerationFailed,
      (ex_world [''A'', ''B''])\<lparr>current_room := Some 1, visited_rooms := [''A'', ''B''],
         current_event := Some \<lparr>event = ''meeting'', is_canon = True\<rparr>,
         seen_events := [Event_class]\<rparr>)"
proof -
  have s: "name (store (ex_world order) 1) = ''B''"
    "canon_event (store (ex_world order) 1) = ''meeting''"
    "name (store (ex_world order) (Suc 0)) = ''B''"
    "canon_event (store (ex_world order) (Suc 0)) = ''meeting''" for order
    by (simp_all add: ex_defs Let_def)
  show ?thesis
  using move_generator_failure [of "ex_world [''A'']" 0 NORTH 1 _ gen_fail, OF _ _ refl]
    move_generator_failure [of "ex_world [''A'', ''B'']" 0 NORTH 1 _ gen_fail, OF _ _ refl]
  by (auto simp: ex_world_fields s get_event_def is_canon_route_def gen_fail_def)
qed

section \<open>Preservation of the structural invariant\<close>

lemma Direction_UNIV: "{NORTH, SOUTH, EAST, WEST} = (UNIV :: Direction set)"
proof -
  have "x \<in> {NORTH, SOUTH, EAST, WEST}" for x :: Direction
    by (cases x) simp_all
  then show ?thesis by blast
qed

lemma length_update_present:
  "k \<in> fst ` set al \<Longrightarrow> length (AList.update k v al) = length al"
  by (induction al) auto

lemma room_connections_ok_update:
  assumes "room_connections_ok members room" "t \<in> members"
  shows "room_connections_ok members
           (room\<lparr>connections := AList.update d (Some t) (connections room)\<rparr>)"
proof -
  from assms(1) have d: "d \<in> fst ` set (connections room)"
    by (simp add: room_connections_ok_def Direction_UNIV)
  then show ?thesis
    using assms
    by (auto simp: room_connections_ok_def length_update_present update_conv' dom_update Direction_UNIV)
qed

lemma room_connections_ok_mono:
  "room_connections_ok members room \<Longrightarrow> members \<subseteq> members' \<Longrightarrow>
     room_connections_ok members' room"
  by (auto simp: room_connections_ok_def)

lemma graph_invariant_connect_rooms:
  assumes "graph_invariant w"
  shows "graph_invariant (connect_rooms a b d w)"
proof (cases "rooms w a")
  case None
  then show ?thesis using assms by (simp add: connect_rooms_def)
next
  case (Some ra)
  show ?thesis
  proof (cases "rooms w b")
    case None
    then show ?thesis using assms Some by (simp add: connect_rooms_def)
  next
    case rb: (Some rb)
    have mem: "ra \<in> ran (rooms w)" "rb \<in> ran (rooms w)"
      using Some rb by (auto simp: ran_def)
    show ?thesis
      using assms Some rb mem
      by (auto simp: connect_rooms_def graph_invariant_def room_connections_ok_update)
  qed
qed

lemma move_frame:
  "store (snd (move g d w)) = store w \<and> rooms (snd (move g d w)) = rooms w \<and>
   (current_room (snd (move g d w)) = current_room w \<or>
    (\<exists>cur nxt. current_room w = Some cur \<and>
       map_of (connections (store w cur)) d = Some (Some nxt) \<and>
       current_room (snd (move g d w)) = Some nxt))"
proof (cases "current_room w")
  case None
  then show ?thesis by (simp add: move_def)
next
  case (Some cur)
  show ?thesis
  proof (cases "map_of (connections (store w cur)) d")
    case None
    with Some show ?thesis by (simp add: move_def)
  next
    case entry: (Some t)
    show ?thesis
    proof (cases t)
      case None
      with Some entry show ?thesis by (simp add: move_def)
    next
      case nxt: (Some nxt)
      let ?w2 = "w\<lparr>current_room := Some nxt,
                    visited_rooms := visited_rooms w @ [name (store w nxt)]\<rparr>"
      show ?thesis
      proof (cases "get_event g ?w2 (store w nxt)")
        case (Inl e)
        with Some entry nxt show ?thesis by (simp add: move_def)
      next
        case (Inr p)
        obtain ev c where p: "p = (ev, c)" by (cases p)
        from Some entry nxt Inr p show ?thesis
          by (simp add: move_def generate_actions_def Let_def split: sum.splits)
      qed
    qed
  qed
qed

lemma graph_invariant_move:
  assumes "graph_invariant w"
  shows "graph_invariant (snd (move g d w))"
proof -
  let ?w' = "snd (move g d w)"
  have f: "store ?w' = store w" "rooms ?w' = rooms w"
    using move_frame [of g d w] by simp_all
  from move_frame [of g d w] consider
    (same) "current_room ?w' = current_room w"
    | (moved) cur nxt where "current_room w = Some cur"
        "map_of (connections (store w cur)) d = Some (Some nxt)"
        "current_room ?w' = Some nxt"
    by blast
  then show ?thesis
  proof cases
    case same
    then show ?thesis using assms f by (simp add: graph_invariant_def)
  next
    case moved
    from assms moved(1) have "cur \<in> ran (rooms w)" by (simp add: graph_invariant_def)
    with assms have "room_connections_ok (ran (rooms w)) (store w cur)"
      by (simp add: graph_invariant_def)
    with moved(2) have "nxt \<in> ran (rooms w)" by (auto simp: room_connections_ok_def)
    then show ?thesis using assms f moved(3) by (simp add: graph_invariant_def)
  qed
qed

lemma graph_invariant_update_variables:
  "graph_invariant w \<Longrightarrow> graph_invariant (snd (update_variables act w))"
  by (simp add: update_variables_def graph_invariant_def split: prod.splits)

lemma add_room_frame_general:
  "store (snd (add_room g room w)) = store w \<and>
   rooms (snd (add_room g room w)) = (rooms w)(name (store w room) \<mapsto> room) \<and>
   current_room (snd (add_room g room w)) =
     (case current_room w of None \<Rightarrow> Some room | Some c \<Rightarrow> Some c)"
  by (auto simp: add_room_def generate_actions_def Let_def split: option.splits sum.splits)

lemma graph_invariant_add_room:
  assumes inv: "graph_invariant w"
    and fresh: "rooms w (name (store w room)) = None"
    and ok: "room_connections_ok (insert room (ran (rooms w))) (store w room)"
  shows "graph_invariant (snd (add_room g room w))"
proof -
  let ?w' = "snd (add_room g room w)"
  have f: "store ?w' = store w"
    "current_room ?w' = (case current_room w of None \<Rightarrow> Some room | Some c \<Rightarrow> Some c)"
    using add_room_frame_general [of g room w] by simp_all
  have r: "ran (rooms ?w') = insert room (ran (rooms w))"
    using fresh add_room_frame_general [of g room w] by simp
  have "room_connections_ok (ran (rooms ?w')) (store ?w' x)" if "x \<in> ran (rooms ?w')" for x
  proof (cases "x = room")
    case True
    then show ?thesis using ok by (simp add: r f)
  next
    case False
    with that have "x \<in> ran (rooms w)" by (simp add: r)
    with inv have "room_connections_ok (ran (rooms w)) (store w x)"
      by (simp add: graph_invariant_def)
    then have "room_connections_ok (insert room (ran (rooms w))) (store w x)"
      by (rule room_connections_ok_mono) auto
    then show ?thesis by (simp add: r f)
  qed
  moreover have "c \<in> ran (rooms ?w')" if "current_room ?w' = Some c" for c
  proof (cases "current_room w")
    case None
    with that have "c = room" by (simp add: f)
    then show ?thesis by (simp add: r)
  next
    case (Some c')
    with that have "c = c'" by (simp add: f)
    with Some inv have "c \<in> ran (rooms w)" by (simp add: graph_invariant_def)
    then show ?thesis by (simp add: r)
  qed
  ultimately show ?thesis unfolding graph_invariant_def by blast
qed

lemma room_connections_ok_Room_init: "room_connections_ok members (Room_init n d p c)"
  by (auto simp: room_connections_ok_def Room_init_def)

lemma ex_world_rooms_ran: "ran (rooms (ex_world order)) = {0, 1}"
proof -
  have "ran (rooms (ex_world order)) = {1, 0}"
    by (simp add: ex_world_fields)
  then show ?thesis by (simp add: insert_commute)
qed

lemma ex_world_store:
  "store (ex_world order) 0 = (ex_store 0)\<lparr>connections := [(NORTH, Some 1), (SOUTH, None), (EAST, None), (WEST, None)]\<rparr>"
  "r \<noteq> 0 \<Longrightarrow> store (ex_world order) r = ex_store r"
  by (simp_all add: ex_defs Let_def)

lemma ex_world_invariant: "graph_invariant (ex_world order)"
  unfolding graph_invariant_def ex_world_rooms_ran
  by (auto simp: ex_world_fields ex_world_store room_connections_ok_def ex_store_def Room_init_def)

text \<open>
  Claim C9, as stated, says that \<open>add_room\<close> preserves the invariant. It fails on the
  code: the example world satisfies the invariant and its current room is the room
  named A; adding a second, freshly constructed room of the same name replaces the
  binding of A in \<open>rooms\<close>, and the current room is no longer a room of the graph.
\<close>

theorem add_room_duplicate_name_counterexample:
  "graph_invariant (ex_world []) \<and>
   ex_store 2 = Room_init ''A'' ''vault'' ''p2'' ''theft'' \<and>
   \<not> graph_invariant (snd (add_room gen_ok 2 (ex_world [])))"
proof -
  have "current_room (snd (add_room gen_ok 2 (ex_world []))) = Some 0"
    using add_room_frame_general [of gen_ok 2 "ex_world []"] by (simp add: ex_world_fields)
  moreover have "0 \<notin> ran (rooms (snd (add_room gen_ok 2 (ex_world []))))"
    using add_room_frame_general [of gen_ok 2 "ex_world []"]
    by (auto simp: ex_world_fields ex_world_store ex_store_def Room_init_def ran_def
          split: if_splits)
  ultimately have "\<not> graph_invariant (snd (add_room gen_ok 2 (ex_world [])))"
    by (auto simp: graph_invariant_def)
  then show ?thesis by (simp add: ex_world_invariant ex_store_def)
qed

text \<open>
  Claim C9, amended: \<open>connect_rooms\<close>, \<open>move\<close> and \<open>update_variables\<close> preserve the
  invariant, whether or not a generator call raises; \<open>add_room\<close> preserves it when the
  name of the added room is not yet a key of \<open>rooms\<close> and the added room's own
  connections have the four entries, each \<open>None\<close>, the room itself or a room of the
  graph (a room as its constructor builds it has four \<open>None\<close> entries).
\<close>

theorem graph_invariant_preserved:
  assumes "graph_invariant w"
  shows "graph_invariant (connect_rooms a b d w) \<and>
    graph_invariant (snd (move g d' w)) \<and>
    graph_invariant (snd (update_variables act w)) \<and>
    (rooms w (name (store w room)) = None \<and>
     room_connections_ok (insert room (ran (rooms w))) (store w room) \<longrightarrow>
       graph_invariant (snd (add_room g' room w)))"
proof (intro conjI impI)
  show "graph_invariant (connect_rooms a b d w)"
    using assms by (rule graph_invariant_connect_rooms)
  show "graph_invariant (snd (move g d' w))"
    using assms by (rule graph_invariant_move)
  show "graph_invariant (snd (update_variables act w))"
    using assms by (rule graph_invariant_update_variables)
  show "graph_invariant (snd (add_room g' room w))"
    if "rooms w (name (store w room)) = None \<and>
     room_connections_ok (insert room (ran (rooms w))) (store w room)"
    using assms that by (blast intro: graph_invariant_add_room)
qed

theorem graph_invariant_preserved_witness:
  "graph_invariant (ex_world []) \<and>
   graph_invariant (connect_rooms ''B'' ''A'' SOUTH (ex_world [])) \<and>
   graph_invariant (snd (move gen_fail NORTH (ex_world []))) \<and>
   graph_invariant (snd (update_variables (hd ex_actions) (ex_world []))) \<and>
   graph_invariant (snd (add_room gen_ok 3 (ex_world [])))"
proof -
  have "rooms (ex_world []) (name (store (ex_world []) 3)) = None"
    by (simp add: ex_world_fields ex_world_store ex_store_def Room_init_def)
  moreover have "room_connections_ok (insert 3 (ran (rooms (ex_world [])))) (store (ex_world []) 3)"
    by (simp add: ex_world_store ex_store_def room_connections_ok_Room_init)
  ultimately show ?thesis
    using graph_invariant_preserved [of "ex_world []" "''B''" "''A''" SOUTH gen_fail NORTH
        "hd ex_actions" 3 gen_ok]
      ex_world_invariant [of "[]"]
    by blast
qed

section \<open>The variable line parser\<close>








































section \<open>The grid layout\<close>












































end
